theory Spec2Isabelle
  imports Main "HOL-Library.Word"
begin

section \<open>Status errors and call metadata\<close>

text \<open>
  The service of \<^verbatim>\<open>hw7_grpc/service.go\<close> answers a refused call with
  \<^verbatim>\<open>grpc.Errorf(codes.Unauthenticated, msg)\<close>. The only other errors it returns are
  those that \<^verbatim>\<open>json.Unmarshal\<close> hands to \<^verbatim>\<open>parseACL\<close>; they are
  opaque to the service and carried as \<open>UnmarshalError\<close>.
\<close>

datatype codes = Unauthenticated

datatype error = Errorf codes string | UnmarshalError string

text \<open>
  \<^verbatim>\<open>metadata.FromIncomingContext(ctx)\<close> yields \<^verbatim>\<open>(md, ok)\<close>, where
  \<^verbatim>\<open>md\<close> is a \<^verbatim>\<open>map[string][]string\<close>. A context is modelled by what that call
  returns for it: \<open>None\<close> when \<^verbatim>\<open>ok\<close> is false.
\<close>

type_synonym MD = "string \<rightharpoonup> string list"

type_synonym Context = "MD option"

definition getConsumerNameFromContext :: "Context \<Rightarrow> error + string" where
  "getConsumerNameFromContext ctx =
     (case ctx of
        None \<Rightarrow> Inl (Errorf Unauthenticated ''can not get metadata'')
      | Some md \<Rightarrow>
          (case md ''consumer'' of
             None \<Rightarrow> Inl (Errorf Unauthenticated ''can not get metadata'')
           | Some consumer \<Rightarrow>
               if length consumer \<noteq> 1
               then Inl (Errorf Unauthenticated ''can not get metadata'')
               else Inr (consumer ! 0)))"

section \<open>The permission check\<close>

text \<open>
  \<^verbatim>\<open>strings.Split(s, sep)\<close> of Go's standard library, for a separator of one byte:
  the substrings of \<open>s\<close> between the occurrences of \<open>sep\<close>, one more than there are
  occurrences (so a single empty string for the empty \<open>s\<close>). \<open>Split_from acc s sep\<close>
  carries the segment read so far.
\<close>

fun Split_from :: "string \<Rightarrow> string \<Rightarrow> char \<Rightarrow> string list" where
  "Split_from acc [] sep = [acc]"
| "Split_from acc (c # cs) sep =
     (if c = sep then acc # Split_from [] cs sep else Split_from (acc @ [c]) cs sep)"

definition Split :: "string \<Rightarrow> char \<Rightarrow> string list" where
  "Split s sep = Split_from [] s sep"

type_synonym ACL = "string \<rightharpoonup> string list"

text \<open>
  The loop of \<^verbatim>\<open>checkBizPermission\<close> over \<^verbatim>\<open>allowedMethods\<close>, in slice order:
  \<open>None\<close> is the \<^verbatim>\<open>nil\<close> error.
\<close>

fun range_allowedMethods :: "string list \<Rightarrow> string \<Rightarrow> error option" where
  "range_allowedMethods [] method = Some (Errorf Unauthenticated ''permission denied'')"
| "range_allowedMethods (m # ms) method =
     (let splitted = Split m CHR ''/'' in
      if length splitted = 3 \<and> splitted ! 2 = ''*'' then None
      else if m = method then None
      else range_allowedMethods ms method)"

definition checkBizPermission :: "ACL \<Rightarrow> string \<Rightarrow> string \<Rightarrow> error option" where
  "checkBizPermission aclStorage consumer method =
     (case aclStorage consumer of
        None \<Rightarrow> Some (Errorf Unauthenticated ''permission denied'')
      | Some allowedMethods \<Rightarrow> range_allowedMethods allowedMethods method)"

text \<open>
  The match policy in the specification's words, for comparison with the code: a rule
  covers a method when it equals the full method path, or when it has three path segments,
  the last one the literal \<open>*\<close>, and its segments before the last are those of the method
  (the rule \<open>/main.Biz/*\<close> and the method \<open>/main.Biz/Check\<close> share \<open>/main.Biz\<close>).
\<close>

definition spec_rule_covers :: "string \<Rightarrow> string \<Rightarrow> bool" where
  "spec_rule_covers rule method \<longleftrightarrow>
     rule = method \<or>
     (length (Split rule CHR ''/'') = 3 \<and> Split rule CHR ''/'' ! 2 = ''*'' \<and>
      take 2 (Split rule CHR ''/'') = take 2 (Split method CHR ''/''))"

definition spec_checkPermission :: "ACL \<Rightarrow> string \<Rightarrow> string \<Rightarrow> bool" where
  "spec_checkPermission table consumer method \<longleftrightarrow>
     (case table consumer of
        None \<Rightarrow> False
      | Some rules \<Rightarrow> list_ex (\<lambda>rule. spec_rule_covers rule method) rules)"

text \<open>What the code takes for a wildcard: three segments, the last one \<open>*\<close>.\<close>

definition everything_allowed :: "string \<Rightarrow> bool" where
  "everything_allowed m \<longleftrightarrow>
     length (Split m CHR ''/'') = 3 \<and> Split m CHR ''/'' ! 2 = ''*''"

section \<open>Messages\<close>

text \<open>
  The two message structs of the busses, and the two protobuf messages of the streams.
  \<^verbatim>\<open>int64\<close> and \<^verbatim>\<open>uint64\<close> are 64-bit words (\<open>sint\<close> reads the former).
\<close>

record logMsg =
  methodName :: string
  consumerName :: string

record statMsg =
  methodName :: string
  consumerName :: string

record Event =
  Timestamp :: "64 word"
  Consumer :: string
  Method :: string
  Host :: string

record Stat =
  Timestamp :: "64 word"
  ByMethod :: "string \<rightharpoonup> 64 word"
  ByConsumer :: "string \<rightharpoonup> 64 word"

section \<open>Channels, goroutines and the subscriptions\<close>

text \<open>
  Every channel of the service is unbuffered: a send completes when a goroutine receives,
  and the receiver runs its \<^verbatim>\<open>select\<close> case at once. The model is sequential: a channel
  is the list of the values that have passed through it, oldest first, and a send is a
  function that gives \<open>None\<close> when no goroutine will ever receive from the channel (the
  sender is then parked for good) and otherwise the state after the receiver has run its case.
  The read-write mutex \<^verbatim>\<open>srv.m\<close> has no state of its own here: it is what makes a
  registration and a broadcast atomic with respect to each other.

  A \<^verbatim>\<open>listener\<close> is allocated by one call of \<^verbatim>\<open>Logging\<close> and used by that call
  only, so the record of a listener also holds the state of its call: \<open>sent\<close> are the events
  the call has passed to \<^verbatim>\<open>srv.Send\<close> (whose error the code ignores), \<open>returned\<close> says
  that the call has left its loop, and \<open>ctx_done\<close> that the context of its stream is done
  (the client cancelled, or the stream was torn down), which nothing in \<^verbatim>\<open>Logging\<close> reads.
\<close>

record listener =
  logsCh :: "logMsg list"
  closeCh :: "unit list"
  sent :: "Event list"
  returned :: bool
  ctx_done :: bool

text \<open>
  The same for a \<^verbatim>\<open>statListener\<close> and the call of \<^verbatim>\<open>Statistics\<close> that owns it:
  \<open>c\<close> and \<open>m\<close> are the two counters of the call, and \<open>local_closeCh\<close> is the channel
  \<^verbatim>\<open>closeCh\<close> that \<^verbatim>\<open>Statistics\<close> makes for itself and hands to nobody.
\<close>

record statListener =
  statCh :: "statMsg list"
  closeCh :: "unit list"
  local_closeCh :: "unit list"
  c :: "string \<rightharpoonup> 64 word"
  m :: "string \<rightharpoonup> 64 word"
  sent :: "Stat list"
  returned :: bool
  ctx_done :: bool

datatype goroutine = Running | Returned | Parked

text \<open>
  The \<^verbatim>\<open>service\<close> struct. The two dispatcher goroutines are part of the state: they are
  the only receivers of the four channels of the struct.
\<close>

record service =
  incomingLogsCh :: "logMsg list"
  closeListenersCh :: "unit list"
  listeners :: "listener list"
  aclStorage :: ACL
  statListeners :: "statListener list"
  incomingStatCh :: "statMsg list"
  closeStatListenersCh :: "unit list"
  logsSender :: goroutine
  statsSender :: goroutine

subsection \<open>Logging\<close>

datatype Logging_case = logsCh_receives logMsg | closeCh_receives

text \<open>One turn of the \<^verbatim>\<open>select\<close> of \<^verbatim>\<open>Logging\<close>.\<close>

fun Logging_select :: "Logging_case \<Rightarrow> listener \<Rightarrow> listener" where
  "Logging_select (logsCh_receives msg) l =
     l\<lparr>logsCh := logsCh l @ [msg],
       listener.sent := listener.sent l @
         [\<lparr>Event.Timestamp = 0, Consumer = logMsg.consumerName msg,
           Method = logMsg.methodName msg, Host = ''127.0.0.1:8083''\<rparr>]\<rparr>"
| "Logging_select closeCh_receives l =
     l\<lparr>listener.closeCh := listener.closeCh l @ [()], listener.returned := True\<rparr>"

text \<open>The loop of \<^verbatim>\<open>Logging\<close> over what its channels deliver, until it returns.\<close>

fun Logging_loop :: "Logging_case list \<Rightarrow> listener \<Rightarrow> listener" where
  "Logging_loop [] l = l"
| "Logging_loop (x # xs) l =
     (if listener.returned l then l else Logging_loop xs (Logging_select x l))"

definition new_listener :: listener where
  "new_listener =
     \<lparr>logsCh = [], listener.closeCh = [], listener.sent = [],
      listener.returned = False, listener.ctx_done = False\<rparr>"

definition send_logsCh :: "logMsg \<Rightarrow> listener \<Rightarrow> listener option" where
  "send_logsCh msg l =
     (if listener.returned l then None else Some (Logging_select (logsCh_receives msg) l))"

definition send_closeCh :: "listener \<Rightarrow> listener option" where
  "send_closeCh l =
     (if listener.returned l then None else Some (Logging_select closeCh_receives l))"

subsection \<open>Statistics\<close>

datatype Statistics_case = ticker_C | statCh_receives statMsg | local_closeCh_receives

text \<open>The two branches on \<^verbatim>\<open>_, ok := c[key]\<close>: a new key starts at 1.\<close>

definition increment :: "(string \<rightharpoonup> 64 word) \<Rightarrow> string \<Rightarrow> (string \<rightharpoonup> 64 word)" where
  "increment counts key =
     (case counts key of None \<Rightarrow> counts(key \<mapsto> 1) | Some n \<Rightarrow> counts(key \<mapsto> n + 1))"

fun Statistics_select :: "Statistics_case \<Rightarrow> statListener \<Rightarrow> statListener" where
  "Statistics_select ticker_C sl =
     sl\<lparr>sent := sent sl @ [\<lparr>Timestamp = 0, ByMethod = m sl, ByConsumer = c sl\<rparr>],
        c := Map.empty, m := Map.empty\<rparr>"
| "Statistics_select (statCh_receives msg) sl =
     sl\<lparr>statCh := statCh sl @ [msg],
        c := increment (c sl) (consumerName msg),
        m := increment (m sl) (methodName msg)\<rparr>"
| "Statistics_select local_closeCh_receives sl =
     sl\<lparr>local_closeCh := local_closeCh sl @ [()], returned := True\<rparr>"

fun Statistics_loop :: "Statistics_case list \<Rightarrow> statListener \<Rightarrow> statListener" where
  "Statistics_loop [] sl = sl"
| "Statistics_loop (x # xs) sl =
     (if returned sl then sl else Statistics_loop xs (Statistics_select x sl))"

definition new_statListener :: statListener where
  "new_statListener =
     \<lparr>statCh = [], closeCh = [], local_closeCh = [], c = Map.empty, m = Map.empty,
      sent = [], returned = False, ctx_done = False\<rparr>"

definition send_statCh :: "statMsg \<Rightarrow> statListener \<Rightarrow> statListener option" where
  "send_statCh msg sl =
     (if returned sl then None else Some (Statistics_select (statCh_receives msg) sl))"

text \<open>
  \<^verbatim>\<open>l.closeCh <- struct{}{}\<close> on a \<^verbatim>\<open>statListener\<close>: the \<^verbatim>\<open>select\<close> of
  \<^verbatim>\<open>Statistics\<close> has the cases \<^verbatim>\<open>ticker.C\<close>, \<^verbatim>\<open>sl.statCh\<close> and the local
  \<^verbatim>\<open>closeCh\<close> (made at line 174 of \<^verbatim>\<open>service.go\<close>, read at line 217), and none
  for \<^verbatim>\<open>sl.closeCh\<close> (made at line 180, sent to by \<^verbatim>\<open>statsSender\<close> at line 122):
  no goroutine receives from it, and the send never completes.
\<close>

definition send_stat_closeCh :: "statListener \<Rightarrow> statListener option" where
  "send_stat_closeCh sl = None"

section \<open>The service\<close>

subsection \<open>Registration\<close>

definition addListener :: "listener \<Rightarrow> service \<Rightarrow> service" where
  "addListener l srv = srv\<lparr>listeners := listeners srv @ [l]\<rparr>"

definition addStatListener :: "statListener \<Rightarrow> service \<Rightarrow> service" where
  "addStatListener sl srv = srv\<lparr>statListeners := statListeners srv @ [sl]\<rparr>"

text \<open>
  What \<^verbatim>\<open>Logging\<close> and \<^verbatim>\<open>Statistics\<close> do before their loops. \<^verbatim>\<open>time.NewTicker\<close>
  panics on a duration that is not positive; the duration is the \<^verbatim>\<open>int64\<close> product of
  \<^verbatim>\<open>time.Second\<close> (a thousand million nanoseconds) and the interval, and \<open>None\<close> is
  that panic.
\<close>

definition Logging :: "service \<Rightarrow> service" where
  "Logging srv = addListener new_listener srv"

definition Statistics :: "64 word \<Rightarrow> service \<Rightarrow> service option" where
  "Statistics IntervalSeconds srv =
     (if sint (1000000000 * IntervalSeconds) \<le> 0 then None
      else Some (addStatListener new_statListener srv))"

subsection \<open>The dispatchers\<close>

text \<open>
  \<^verbatim>\<open>for _, l := range ls { l.ch <- v }\<close>: the sends in slice order. The loop stops at the
  first send that nobody receives; the flag says whether it ran to its end.
\<close>

fun range_send :: "('l \<Rightarrow> 'l option) \<Rightarrow> 'l list \<Rightarrow> 'l list \<times> bool" where
  "range_send send [] = ([], True)"
| "range_send send (l # ls) =
     (case send l of
        None \<Rightarrow> (l # ls, False)
      | Some l' \<Rightarrow> (case range_send send ls of (ls', done) \<Rightarrow> (l' # ls', done)))"

text \<open>The two cases of the \<^verbatim>\<open>select\<close> of \<^verbatim>\<open>logsSender\<close>.\<close>

definition logsSender_log :: "logMsg \<Rightarrow> service \<Rightarrow> service" where
  "logsSender_log log srv =
     (case range_send (send_logsCh log) (listeners srv) of
        (ls, done) \<Rightarrow> srv\<lparr>listeners := ls, logsSender := (if done then Running else Parked)\<rparr>)"

definition logsSender_close :: "service \<Rightarrow> service" where
  "logsSender_close srv =
     (case range_send send_closeCh (listeners srv) of
        (ls, done) \<Rightarrow> srv\<lparr>listeners := ls, logsSender := (if done then Returned else Parked)\<rparr>)"

text \<open>The two cases of the \<^verbatim>\<open>select\<close> of \<^verbatim>\<open>statsSender\<close>.\<close>

definition statsSender_statMsg :: "statMsg \<Rightarrow> service \<Rightarrow> service" where
  "statsSender_statMsg statMsg srv =
     (case range_send (send_statCh statMsg) (statListeners srv) of
        (ls, done) \<Rightarrow>
          srv\<lparr>statListeners := ls, statsSender := (if done then Running else Parked)\<rparr>)"

definition statsSender_close :: "service \<Rightarrow> service" where
  "statsSender_close srv =
     (case range_send send_stat_closeCh (statListeners srv) of
        (ls, done) \<Rightarrow>
          srv\<lparr>statListeners := ls, statsSender := (if done then Returned else Parked)\<rparr>)"

text \<open>Sends on the four channels of the struct: received by a dispatcher in its loop.\<close>

definition send_incomingLogsCh :: "logMsg \<Rightarrow> service \<Rightarrow> service option" where
  "send_incomingLogsCh log srv =
     (if logsSender srv = Running
      then Some (logsSender_log log (srv\<lparr>incomingLogsCh := incomingLogsCh srv @ [log]\<rparr>))
      else None)"

definition send_closeListenersCh :: "service \<Rightarrow> service option" where
  "send_closeListenersCh srv =
     (if logsSender srv = Running
      then Some (logsSender_close (srv\<lparr>closeListenersCh := closeListenersCh srv @ [()]\<rparr>))
      else None)"

definition send_incomingStatCh :: "statMsg \<Rightarrow> service \<Rightarrow> service option" where
  "send_incomingStatCh statMsg srv =
     (if statsSender srv = Running
      then Some (statsSender_statMsg statMsg
                   (srv\<lparr>incomingStatCh := incomingStatCh srv @ [statMsg]\<rparr>))
      else None)"

definition send_closeStatListenersCh :: "service \<Rightarrow> service option" where
  "send_closeStatListenersCh srv =
     (if statsSender srv = Running
      then Some (statsSender_close
                   (srv\<lparr>closeStatListenersCh := closeStatListenersCh srv @ [()]\<rparr>))
      else None)"

subsection \<open>The interceptors\<close>

text \<open>
  \<open>unaryInterceptor srv ctx req FullMethod handler\<close> gives the service after the call, the
  calls it made to the wrapped handler, and what it returns: the pair of Go's
  \<^verbatim>\<open>(interface{}, error)\<close>, with \<open>None\<close> for \<^verbatim>\<open>nil\<close>, or nothing when the call is
  parked on a send.
\<close>

definition unaryInterceptor ::
  "service \<Rightarrow> Context \<Rightarrow> 'req \<Rightarrow> string \<Rightarrow> (Context \<Rightarrow> 'req \<Rightarrow> 'resp option \<times> error option) \<Rightarrow>
   service \<times> (Context \<times> 'req) list \<times> ('resp option \<times> error option) option" where
  "unaryInterceptor s ctx req FullMethod handler =
     (case getConsumerNameFromContext ctx of
        Inl err \<Rightarrow> (s, [], Some (None, Some err))
      | Inr consumer \<Rightarrow>
          (case checkBizPermission (aclStorage s) consumer FullMethod of
             Some err \<Rightarrow> (s, [], Some (None, Some err))
           | None \<Rightarrow>
               (case send_incomingLogsCh
                       \<lparr>logMsg.methodName = FullMethod, logMsg.consumerName = consumer\<rparr> s of
                  None \<Rightarrow> (s, [], None)
                | Some s1 \<Rightarrow>
                    (case send_incomingStatCh
                            \<lparr>methodName = FullMethod, consumerName = consumer\<rparr> s1 of
                       None \<Rightarrow> (s1, [], None)
                     | Some s2 \<Rightarrow> (s2, [(ctx, req)], Some (handler ctx req))))))"

text \<open>
  The stream interceptor ends in \<^verbatim>\<open>return handler(srv, ss)\<close>, and a stream handler runs
  for as long as its stream: the model stops where the handler is entered.
\<close>

datatype stream_outcome = Return error | Parked_in_send | Enters_handler

definition streamInterceptor :: "service \<Rightarrow> Context \<Rightarrow> string \<Rightarrow> service \<times> stream_outcome" where
  "streamInterceptor s ctx FullMethod =
     (case getConsumerNameFromContext ctx of
        Inl err \<Rightarrow> (s, Return err)
      | Inr consumer \<Rightarrow>
          (case checkBizPermission (aclStorage s) consumer FullMethod of
             Some err \<Rightarrow> (s, Return err)
           | None \<Rightarrow>
               if FullMethod = ''/main.Admin/Logging''
               then (case range_send
                            (send_logsCh
                               \<lparr>logMsg.methodName = FullMethod, logMsg.consumerName = consumer\<rparr>)
                            (listeners s) of
                       (ls, done) \<Rightarrow>
                         (s\<lparr>listeners := ls\<rparr>, if done then Enters_handler else Parked_in_send))
               else (case range_send
                            (send_statCh \<lparr>methodName = FullMethod, consumerName = consumer\<rparr>)
                            (statListeners s) of
                       (ls, done) \<Rightarrow>
                         (s\<lparr>statListeners := ls\<rparr>,
                          if done then Enters_handler else Parked_in_send))))"

subsection \<open>Startup and shutdown\<close>

text \<open>
  \<^verbatim>\<open>parseACL\<close> calls \<^verbatim>\<open>json.Unmarshal\<close> twice: on the whole text, into a
  \<^verbatim>\<open>map[string]*json.RawMessage\<close>, and on each value, into a \<^verbatim>\<open>[]string\<close>. The
  decoder belongs to Go's standard library, so both uses are parameters. The first gives the
  entries of the decoded map in the order in which \<^verbatim>\<open>range\<close> will visit them; a value is
  a pointer, \<open>None\<close> when it is \<^verbatim>\<open>nil\<close>, and \<^verbatim>\<open>*v\<close> panics on it.
\<close>

type_synonym RawMessage = string

datatype 'a result = Value 'a | Error error | Panic

fun range_aclParsed ::
  "(RawMessage \<Rightarrow> error + string list) \<Rightarrow> (string \<times> RawMessage option) list \<Rightarrow> ACL \<Rightarrow> ACL result"
  where
  "range_aclParsed Unmarshal_strings [] result = Value result"
| "range_aclParsed Unmarshal_strings ((k, v) # kvs) result =
     (case v of
        None \<Rightarrow> Panic
      | Some raw \<Rightarrow>
          (case Unmarshal_strings raw of
             Inl err \<Rightarrow> Error err
           | Inr val \<Rightarrow> range_aclParsed Unmarshal_strings kvs (result(k \<mapsto> val))))"

definition parseACL ::
  "(string \<Rightarrow> error + (string \<times> RawMessage option) list) \<Rightarrow>
   (RawMessage \<Rightarrow> error + string list) \<Rightarrow> string \<Rightarrow> ACL result" where
  "parseACL Unmarshal_map Unmarshal_strings acl =
     (case Unmarshal_map acl of
        Inl err \<Rightarrow> Error err
      | Inr aclParsed \<Rightarrow> range_aclParsed Unmarshal_strings aclParsed Map.empty)"

text \<open>The struct that \<^verbatim>\<open>StartMyMicroservice\<close> builds, with both dispatchers started.\<close>

definition new_service :: "ACL \<Rightarrow> service" where
  "new_service aclParsed =
     \<lparr>incomingLogsCh = [], closeListenersCh = [], listeners = [], aclStorage = aclParsed,
      statListeners = [], incomingStatCh = [], closeStatListenersCh = [],
      logsSender = Running, statsSender = Running\<rparr>"

text \<open>
  \<open>StartMyMicroservice\<close> gives the addresses it has passed to \<^verbatim>\<open>net.Listen\<close> and its
  result: the error it returns, a panic, or the service it has started. \<open>Listen\<close> says
  whether \<^verbatim>\<open>net.Listen\<close> succeeds on an address.
\<close>

definition StartMyMicroservice ::
  "(string \<Rightarrow> error + (string \<times> RawMessage option) list) \<Rightarrow>
   (RawMessage \<Rightarrow> error + string list) \<Rightarrow> (string \<Rightarrow> bool) \<Rightarrow> string \<Rightarrow> string \<Rightarrow>
   string list \<times> service result" where
  "StartMyMicroservice Unmarshal_map Unmarshal_strings Listen addr acl =
     (case parseACL Unmarshal_map Unmarshal_strings acl of
        Error err \<Rightarrow> ([], Error err)
      | Panic \<Rightarrow> ([], Panic)
      | Value aclParsed \<Rightarrow>
          if Listen addr then ([addr], Value (new_service aclParsed)) else ([addr], Panic))"

text \<open>
  The goroutine that waits for \<^verbatim>\<open>ctx.Done()\<close>: two sends, then \<^verbatim>\<open>srv.Stop()\<close>. The
  flag says whether \<^verbatim>\<open>srv.Stop()\<close> was reached.
\<close>

definition ctx_Done :: "service \<Rightarrow> service \<times> bool" where
  "ctx_Done service =
     (case send_closeListenersCh service of
        None \<Rightarrow> (service, False)
      | Some s1 \<Rightarrow>
          (case send_closeStatListenersCh s1 of
             None \<Rightarrow> (s1, False)
           | Some s2 \<Rightarrow> (s2, True)))"

subsection \<open>Runs of the log bus\<close>

text \<open>
  What happens on the log bus, in the order in which the mutex and the dispatcher serialise
  it: a call of \<^verbatim>\<open>Logging\<close> registers its listener, a unary call publishes a message on
  \<^verbatim>\<open>incomingLogsCh\<close>, and the context of the stream of the \<open>i\<close>-th listener is cancelled.
  A cancellation is an act of the client or the transport; the service has no code for it.
\<close>

datatype bus_op = Subscribe | Publish logMsg | Cancel nat

definition cancel :: "nat \<Rightarrow> service \<Rightarrow> service" where
  "cancel i srv =
     (if i < length (listeners srv)
      then srv\<lparr>listeners := (listeners srv)[i := (listeners srv ! i)\<lparr>listener.ctx_done := True\<rparr>]\<rparr>
      else srv)"



fun log_bus :: "bus_op list \<Rightarrow> service \<Rightarrow> service option" where
  "log_bus [] srv = Some srv"
| "log_bus (Subscribe # ops) srv = log_bus ops (Logging srv)"
| "log_bus (Publish log # ops) srv =
     (case send_incomingLogsCh log srv of None \<Rightarrow> None | Some srv' \<Rightarrow> log_bus ops srv')"
| "log_bus (Cancel i # ops) srv = log_bus ops (cancel i srv)"




text \<open>The number of messages of a window that carry a key, as the counters see them.\<close>

definition occurrences :: "string \<Rightarrow> string list \<Rightarrow> nat" where
  "occurrences key keys = length (filter (\<lambda>k. k = key) keys)"

definition counts :: "string list \<Rightarrow> (string \<rightharpoonup> 64 word)" where
  "counts keys =
     (\<lambda>key. if occurrences key keys = 0 then None else Some (of_nat (occurrences key keys)))"

text \<open>Counters that already hold \<open>cnt\<close>, after the keys of some more messages.\<close>

definition add_counts :: "(string \<rightharpoonup> 64 word) \<Rightarrow> string list \<Rightarrow> (string \<rightharpoonup> 64 word)" where
  "add_counts cnt keys =
     (\<lambda>key. if occurrences key keys = 0 then cnt key
            else Some ((case cnt key of None \<Rightarrow> 0 | Some n \<Rightarrow> n) + of_nat (occurrences key keys)))"

subsection \<open>The Biz handlers\<close>

text \<open>
  \<^verbatim>\<open>Check\<close>, \<^verbatim>\<open>Add\<close> and \<^verbatim>\<open>Test\<close> return \<^verbatim>\<open>(&Nothing{}, nil)\<close>; the message
  \<^verbatim>\<open>Nothing\<close> is the unit value.
\<close>

definition Check :: "Context \<Rightarrow> unit \<Rightarrow> unit option \<times> error option" where
  "Check ctx n = (Some (), None)"

definition Add :: "Context \<Rightarrow> unit \<Rightarrow> unit option \<times> error option" where
  "Add ctx n = (Some (), None)"

definition Test :: "Context \<Rightarrow> unit \<Rightarrow> unit option \<times> error option" where
  "Test ctx n = (Some (), None)"

subsection \<open>A service that serves\<close>

text \<open>
  Both dispatchers are in their loops and every registered call is in its own: the state
  of the service from its start until its context is done.
\<close>

definition serving :: "service \<Rightarrow> bool" where
  "serving srv \<longleftrightarrow>
     logsSender srv = Running \<and> statsSender srv = Running \<and>
     list_all (\<lambda>l. \<not> listener.returned l) (listeners srv) \<and>
     list_all (\<lambda>sl. \<not> returned sl) (statListeners srv)"

subsection \<open>Examples\<close>

text \<open>
  A call that carries the single consumer value \<open>consumer1\<close>, and a service with one
  running call of \<^verbatim>\<open>Logging\<close> whose table lets \<open>consumer1\<close> call two methods.
\<close>

definition consumer1_ctx :: Context where
  "consumer1_ctx = Some [''consumer'' \<mapsto> [''consumer1'']]"

definition consumer1_service :: service where
  "consumer1_service =
     Logging (new_service [''consumer1'' \<mapsto> [''/main.Biz/Check'', ''/main.Admin/Statistics'']])"

text \<open>
  Three specification texts, and decoders that do on them what \<^verbatim>\<open>json.Unmarshal\<close> does:
  the first text is an object of one consumer with two patterns, the second is no JSON, and
  the third gives a number where the array of patterns should be.
\<close>

definition acl_consumer1 :: string where
  \<open>acl_consumer1 = ''{"consumer1": ["/main.Biz/Check", "/main.Biz/Add"]}''\<close>

definition acl_no_json :: string where
  \<open>acl_no_json = ''{"consumer1": [''\<close>

definition acl_number :: string where
  \<open>acl_number = ''{"consumer1": 5}''\<close>

definition raw_patterns :: RawMessage where
  \<open>raw_patterns = ''["/main.Biz/Check", "/main.Biz/Add"]''\<close>

definition example_Unmarshal_map :: "string \<Rightarrow> error + (string \<times> RawMessage option) list" where
  "example_Unmarshal_map text =
     (if text = acl_consumer1 then Inr [(''consumer1'', Some raw_patterns)]
      else if text = acl_number then Inr [(''consumer1'', Some ''5'')]
      else Inl (UnmarshalError ''unexpected end of JSON input''))"

definition example_Unmarshal_strings :: "RawMessage \<Rightarrow> error + string list" where
  "example_Unmarshal_strings raw =
     (if raw = raw_patterns then Inr [''/main.Biz/Check'', ''/main.Biz/Add'']
      else Inl (UnmarshalError ''json: cannot unmarshal number into Go value of type []string''))"

text \<open>
  The package documentation of \<^verbatim>\<open>encoding/json\<close> says: "The JSON null value unmarshals
  into an interface, map, pointer, or slice by setting that Go value to nil." On the text
  \<open>null\<close> the first \<^verbatim>\<open>json.Unmarshal\<close> of \<^verbatim>\<open>parseACL\<close> therefore returns no
  error and leaves \<^verbatim>\<open>aclParsed\<close> a \<^verbatim>\<open>nil\<close> map, over which \<^verbatim>\<open>range\<close> does not
  iterate. \<open>null_Unmarshal_map\<close> is a decoder that does so.
\<close>

definition null_Unmarshal_map :: "string \<Rightarrow> error + (string \<times> RawMessage option) list" where
  "null_Unmarshal_map text =
     (if text = ''null'' then Inr [] else example_Unmarshal_map text)"


definition Check_logMsg :: logMsg where
  "Check_logMsg = \<lparr>logMsg.methodName = ''/main.Biz/Check'', logMsg.consumerName = ''consumer1''\<rparr>"


text \<open>The window of the specification's example: three calls of Check and two of Add.\<close>

definition example_window :: "statMsg list" where
  "example_window =
     [\<lparr>methodName = ''/main.Biz/Check'', consumerName = ''consumer1''\<rparr>,
      \<lparr>methodName = ''/main.Biz/Add'', consumerName = ''consumer1''\<rparr>,
      \<lparr>methodName = ''/main.Biz/Check'', consumerName = ''consumer1''\<rparr>,
      \<lparr>methodName = ''/main.Biz/Check'', consumerName = ''consumer1''\<rparr>,
      \<lparr>methodName = ''/main.Biz/Add'', consumerName = ''consumer1''\<rparr>]"


section \<open>Properties of the permission check\<close>

lemma Split_from_append: "Split_from acc s sep = (case Split_from [] s sep of w # ws \<Rightarrow> (acc @ w) # ws | [] \<Rightarrow> [])"
proof (induction s arbitrary: acc)
  case Nil
  then show ?case by simp
next
  case (Cons x xs)
  show ?case
  proof (cases "x = sep")
    case True
    then show ?thesis by simp
  next
    case False
    have "Split_from (acc @ [x]) xs sep = (case Split_from [] xs sep of w # ws \<Rightarrow> ((acc @ [x]) @ w) # ws | [] \<Rightarrow> [])"
      by (rule Cons.IH)
    moreover have "Split_from [x] xs sep = (case Split_from [] xs sep of w # ws \<Rightarrow> ([x] @ w) # ws | [] \<Rightarrow> [])"
      using Cons.IH [of "[x]"] by simp
    ultimately show ?thesis using False by (simp split: list.splits)
  qed
qed

lemma Split_from_neq_Nil: "Split_from acc s sep \<noteq> []"
  by (induction s arbitrary: acc) auto

lemma Split_Nil: "Split [] sep = [[]]"
  by (simp add: Split_def)

lemma Split_Cons:
  "Split (x # xs) sep =
     (if x = sep then [] # Split xs sep
      else (x # hd (Split xs sep)) # tl (Split xs sep))"
  unfolding Split_def
  using Split_from_append [of "[x]" xs sep] Split_from_neq_Nil [of "[]" xs sep]
  by (auto split: list.splits)

lemma Split_no_sep: "sep \<notin> set s \<Longrightarrow> Split s sep = [s]"
  by (induction s) (auto simp: Split_Nil Split_Cons)

lemma Split_append_sep:
  "sep \<notin> set a \<Longrightarrow> Split (a @ sep # s) sep = a # Split s sep"
  by (induction a) (auto simp: Split_Cons)

lemma Split_neq_Nil: "Split s sep \<noteq> []"
  by (simp add: Split_def Split_from_neq_Nil)

lemma Split_decompose:
  "Split s sep = w # ws \<Longrightarrow> ws \<noteq> [] \<Longrightarrow>
     \<exists>s'. s = w @ sep # s' \<and> sep \<notin> set w \<and> Split s' sep = ws"
proof (induction s arbitrary: w)
  case Nil
  then show ?case by (simp add: Split_Nil)
next
  case (Cons x xs)
  show ?case
  proof (cases "x = sep")
    case True
    with Cons.prems show ?thesis by (auto simp: Split_Cons)
  next
    case False
    with Cons.prems have w: "w = x # hd (Split xs sep)" and ws: "ws = tl (Split xs sep)"
      by (auto simp: Split_Cons)
    have "Split xs sep = hd (Split xs sep) # ws"
      using ws Split_neq_Nil [of xs sep] by simp
    from Cons.IH [OF this Cons.prems(2)]
    obtain s' where "xs = hd (Split xs sep) @ sep # s'" "sep \<notin> set (hd (Split xs sep))" "Split s' sep = ws"
      by blast
    then show ?thesis using w False by auto
  qed
qed

lemma Split_singleton: "Split s sep = [w] \<Longrightarrow> s = w \<and> sep \<notin> set w"
proof (induction s arbitrary: w)
  case Nil
  then show ?case by (simp add: Split_Nil)
next
  case (Cons x xs)
  show ?case
  proof (cases "x = sep")
    case True
    with Cons.prems show ?thesis using Split_neq_Nil [of xs sep] by (auto simp: Split_Cons)
  next
    case False
    with Cons.prems have w: "w = x # hd (Split xs sep)" and ws: "tl (Split xs sep) = []"
      by (auto simp: Split_Cons)
    have "Split xs sep = [hd (Split xs sep)]"
      using ws Split_neq_Nil [of xs sep] by (cases "Split xs sep") auto
    from Cons.IH [OF this] show ?thesis using w False by auto
  qed
qed

lemma everything_allowed_iff:
  "everything_allowed r \<longleftrightarrow>
     (\<exists>a b. r = a @ ''/'' @ b @ ''/*'' \<and> CHR ''/'' \<notin> set a \<and> CHR ''/'' \<notin> set b)"
proof
  assume "everything_allowed r"
  then have len: "length (Split r CHR ''/'') = 3" and last: "Split r CHR ''/'' ! 2 = ''*''"
    by (simp_all add: everything_allowed_def)
  from len obtain a b x where abc: "Split r CHR ''/'' = [a, b, x]"
    by (auto simp: numeral_3_eq_3 length_Suc_conv)
  with last have s: "Split r CHR ''/'' = [a, b, ''*'']" by simp
  from Split_decompose [OF s] obtain s1 where
    1: "r = a @ CHR ''/'' # s1" "CHR ''/'' \<notin> set a" "Split s1 CHR ''/'' = [b, ''*'']" by auto
  from Split_decompose [OF 1(3)] obtain s2 where
    2: "s1 = b @ CHR ''/'' # s2" "CHR ''/'' \<notin> set b" "Split s2 CHR ''/'' = [''*'']" by auto
  from Split_singleton [OF 2(3)] have "s2 = ''*''" by simp
  with 1 2 show "\<exists>a b. r = a @ ''/'' @ b @ ''/*'' \<and> CHR ''/'' \<notin> set a \<and> CHR ''/'' \<notin> set b"
    by auto
next
  assume "\<exists>a b. r = a @ ''/'' @ b @ ''/*'' \<and> CHR ''/'' \<notin> set a \<and> CHR ''/'' \<notin> set b"
  then obtain a b where r: "r = a @ CHR ''/'' # b @ CHR ''/'' # ''*''"
    and a: "CHR ''/'' \<notin> set a" and b: "CHR ''/'' \<notin> set b" by auto
  have "Split r CHR ''/'' = [a, b, ''*'']"
    unfolding r by (simp add: Split_append_sep a b Split_no_sep)
  then show "everything_allowed r" by (simp add: everything_allowed_def)
qed

lemma range_allowedMethods_eq:
  "range_allowedMethods rs method =
     (if list_ex (\<lambda>r. everything_allowed r \<or> r = method) rs then None
      else Some (Errorf Unauthenticated ''permission denied''))"
  by (induction rs) (auto simp: Let_def everything_allowed_def)

lemma checkBizPermission_denies:
  "checkBizPermission table consumer method \<noteq> None \<Longrightarrow>
     checkBizPermission table consumer method =
       Some (Errorf Unauthenticated ''permission denied'')"
  by (cases "table consumer")
    (simp_all add: checkBizPermission_def range_allowedMethods_eq split: if_splits)

text \<open>
  C1, as amended. \<open>checkBizPermission\<close> returns \<^verbatim>\<open>nil\<close> exactly when the table has an
  entry for the consumer and that entry holds a rule equal to the full method path, or a
  rule of three path segments whose last is the literal \<open>*\<close>, whatever its service
  segment; in every other case, an unknown consumer included, it returns Unauthenticated
  with the text "permission denied".
\<close>

theorem checkBizPermission_allows_iff:
  "checkBizPermission table consumer method =
     (if \<exists>allowedMethods. table consumer = Some allowedMethods \<and>
           list_ex (\<lambda>m. m = method \<or>
              (\<exists>a b. m = a @ ''/'' @ b @ ''/*'' \<and> CHR ''/'' \<notin> set a \<and> CHR ''/'' \<notin> set b))
             allowedMethods
      then None
      else Some (Errorf Unauthenticated ''permission denied''))"
proof -
  have "(\<lambda>m. everything_allowed m \<or> m = method) =
        (\<lambda>m. m = method \<or>
              (\<exists>a b. m = a @ ''/'' @ b @ ''/*'' \<and> CHR ''/'' \<notin> set a \<and> CHR ''/'' \<notin> set b))"
    by (auto simp: everything_allowed_iff)
  then show ?thesis
    by (cases "table consumer") (simp_all add: checkBizPermission_def range_allowedMethods_eq)
qed

text \<open>
  C1, as stated, fails: a consumer whose only rule is \<open>/main.Admin/*\<close> is allowed
  \<open>/main.Biz/Check\<close>, a method of another service.
\<close>

theorem checkBizPermission_other_service_counterexample:
  "\<not> (checkBizPermission [''consumer2'' \<mapsto> [''/main.Admin/*'']] ''consumer2'' ''/main.Biz/Check'' = None
       \<longleftrightarrow> spec_checkPermission [''consumer2'' \<mapsto> [''/main.Admin/*'']] ''consumer2'' ''/main.Biz/Check'')"
  by (simp add: checkBizPermission_def spec_checkPermission_def spec_rule_covers_def Split_def)

section \<open>Properties of the interceptors\<close>

lemma range_send_total:
  "list_all (\<lambda>l. send l \<noteq> None) ls \<Longrightarrow> range_send send ls = (map (\<lambda>l. the (send l)) ls, True)"
  by (induction ls) auto

lemma range_send_logsCh:
  "list_all (\<lambda>l. \<not> listener.returned l) ls \<Longrightarrow>
     range_send (send_logsCh msg) ls = (map (Logging_select (logsCh_receives msg)) ls, True)"
  by (induction ls) (auto simp: send_logsCh_def)

lemma range_send_statCh:
  "list_all (\<lambda>sl. \<not> returned sl) ls \<Longrightarrow>
     range_send (send_statCh msg) ls = (map (Statistics_select (statCh_receives msg)) ls, True)"
  by (induction ls) (auto simp: send_statCh_def)

lemma not_returned_logsCh:
  "list_all (\<lambda>l. \<not> listener.returned l) ls \<Longrightarrow>
     list_all (\<lambda>l. \<not> listener.returned l) (map (Logging_select (logsCh_receives msg)) ls)"
  by (induction ls) auto

lemma not_returned_statCh:
  "list_all (\<lambda>sl. \<not> returned sl) ls \<Longrightarrow>
     list_all (\<lambda>sl. \<not> returned sl) (map (Statistics_select (statCh_receives msg)) ls)"
  by (induction ls) auto

lemma send_incomingLogsCh_serving:
  assumes "serving srv"
  shows "send_incomingLogsCh msg srv =
           Some (srv\<lparr>incomingLogsCh := incomingLogsCh srv @ [msg],
                     listeners := map (Logging_select (logsCh_receives msg)) (listeners srv)\<rparr>)"
  using assms
  by (simp add: serving_def send_incomingLogsCh_def logsSender_log_def range_send_logsCh)

lemma send_incomingStatCh_serving:
  assumes "serving srv"
  shows "send_incomingStatCh msg srv =
           Some (srv\<lparr>incomingStatCh := incomingStatCh srv @ [msg],
                     statListeners := map (Statistics_select (statCh_receives msg)) (statListeners srv)\<rparr>)"
  using assms
  by (simp add: serving_def send_incomingStatCh_def statsSender_statMsg_def range_send_statCh)

lemma serving_logs:
  "serving srv \<Longrightarrow>
     serving (srv\<lparr>incomingLogsCh := xs,
                  listeners := map (Logging_select (logsCh_receives msg)) (listeners srv)\<rparr>)"
  by (simp add: serving_def not_returned_logsCh)

lemma serving_stats:
  "serving srv \<Longrightarrow>
     serving (srv\<lparr>incomingStatCh := xs,
                  statListeners := map (Statistics_select (statCh_receives msg)) (statListeners srv)\<rparr>)"
  by (simp add: serving_def not_returned_statCh)

lemma consumer1_auth: "getConsumerNameFromContext consumer1_ctx = Inr ''consumer1''"
  by (simp add: consumer1_ctx_def getConsumerNameFromContext_def)

lemma consumer1_Check:
  "checkBizPermission (aclStorage consumer1_service) ''consumer1'' ''/main.Biz/Check'' = None"
  by (simp add: consumer1_service_def Logging_def addListener_def new_service_def
      checkBizPermission_def Split_def)

lemma consumer1_serving: "serving consumer1_service"
  by (simp add: consumer1_service_def Logging_def addListener_def new_service_def
      serving_def new_listener_def)

text \<open>
  C2. A call whose metadata is absent, has no \<open>consumer\<close> entry, or has a number of
  \<open>consumer\<close> values other than one, and a call whose consumer the permission check
  denies, is answered by both interceptors with an Unauthenticated error; the wrapped
  handler is not called and the service is left as it was, so that nothing is published on
  either bus.
\<close>

theorem interceptors_refuse_unauthenticated:
  assumes "ctx = None \<or>
           (\<exists>md. ctx = Some md \<and> md ''consumer'' = None) \<or>
           (\<exists>md vs. ctx = Some md \<and> md ''consumer'' = Some vs \<and> length vs \<noteq> 1) \<or>
           (\<exists>md consumer. ctx = Some md \<and> md ''consumer'' = Some [consumer] \<and>
              checkBizPermission (aclStorage srv) consumer FullMethod \<noteq> None)"
  shows "\<exists>msg. unaryInterceptor srv ctx req FullMethod handler =
                 (srv, [], Some (None, Some (Errorf Unauthenticated msg))) \<and>
               streamInterceptor srv ctx FullMethod = (srv, Return (Errorf Unauthenticated msg))"
proof -
  consider (absent) "ctx = None"
    | (lacks) md where "ctx = Some md" "md ''consumer'' = None"
    | (several) md vs where "ctx = Some md" "md ''consumer'' = Some vs" "length vs \<noteq> 1"
    | (denied) md consumer where "ctx = Some md" "md ''consumer'' = Some [consumer]"
        "checkBizPermission (aclStorage srv) consumer FullMethod \<noteq> None"
    using assms by blast
  then show ?thesis
  proof cases
    case absent
    then show ?thesis
      by (simp add: unaryInterceptor_def streamInterceptor_def getConsumerNameFromContext_def)
  next
    case lacks
    then show ?thesis
      by (simp add: unaryInterceptor_def streamInterceptor_def getConsumerNameFromContext_def)
  next
    case several
    then show ?thesis
      by (simp add: unaryInterceptor_def streamInterceptor_def getConsumerNameFromContext_def)
  next
    case denied
    have auth: "getConsumerNameFromContext ctx = Inr consumer"
      using denied(1,2) by (simp add: getConsumerNameFromContext_def)
    have "checkBizPermission (aclStorage srv) consumer FullMethod =
            Some (Errorf Unauthenticated ''permission denied'')"
      using denied(3) checkBizPermission_denies [of "aclStorage srv" consumer FullMethod]
      by simp
    then show ?thesis
      by (simp add: unaryInterceptor_def streamInterceptor_def auth)
  qed
qed

theorem interceptors_refuse_unauthenticated_witness:
  "(\<exists>msg. unaryInterceptor consumer1_service None () ''/main.Biz/Check'' Check =
            (consumer1_service, [], Some (None, Some (Errorf Unauthenticated msg))) \<and>
          streamInterceptor consumer1_service None ''/main.Biz/Check'' =
            (consumer1_service, Return (Errorf Unauthenticated msg))) \<and>
   (\<exists>msg. unaryInterceptor consumer1_service
              (Some [''consumer'' \<mapsto> [''consumer1'', ''consumer1'']]) () ''/main.Biz/Check'' Check =
            (consumer1_service, [], Some (None, Some (Errorf Unauthenticated msg))) \<and>
          streamInterceptor consumer1_service
              (Some [''consumer'' \<mapsto> [''consumer1'', ''consumer1'']]) ''/main.Biz/Check'' =
            (consumer1_service, Return (Errorf Unauthenticated msg))) \<and>
   (\<exists>msg. unaryInterceptor consumer1_service consumer1_ctx () ''/main.Biz/Test'' Check =
            (consumer1_service, [], Some (None, Some (Errorf Unauthenticated msg))) \<and>
          streamInterceptor consumer1_service consumer1_ctx ''/main.Biz/Test'' =
            (consumer1_service, Return (Errorf Unauthenticated msg)))"
proof (intro conjI)
  show "\<exists>msg. unaryInterceptor consumer1_service None () ''/main.Biz/Check'' Check =
            (consumer1_service, [], Some (None, Some (Errorf Unauthenticated msg))) \<and>
          streamInterceptor consumer1_service None ''/main.Biz/Check'' =
            (consumer1_service, Return (Errorf Unauthenticated msg))"
    by (rule interceptors_refuse_unauthenticated) simp
next
  let ?ctx = "Some [''consumer'' \<mapsto> [''consumer1'', ''consumer1'']]"
  have "\<exists>md vs. ?ctx = Some md \<and> md ''consumer'' = Some vs \<and> length vs \<noteq> 1"
    by simp
  then show "\<exists>msg. unaryInterceptor consumer1_service ?ctx () ''/main.Biz/Check'' Check =
            (consumer1_service, [], Some (None, Some (Errorf Unauthenticated msg))) \<and>
          streamInterceptor consumer1_service ?ctx ''/main.Biz/Check'' =
            (consumer1_service, Return (Errorf Unauthenticated msg))"
    by (intro interceptors_refuse_unauthenticated disjI2 disjI1)
next
  have "checkBizPermission (aclStorage consumer1_service) ''consumer1'' ''/main.Biz/Test'' \<noteq> None"
    by (simp add: consumer1_service_def Logging_def addListener_def new_service_def
        checkBizPermission_def Split_def)
  then have "\<exists>md consumer. consumer1_ctx = Some md \<and> md ''consumer'' = Some [consumer] \<and>
              checkBizPermission (aclStorage consumer1_service) consumer ''/main.Biz/Test'' \<noteq> None"
    by (simp add: consumer1_ctx_def)
  then show "\<exists>msg. unaryInterceptor consumer1_service consumer1_ctx () ''/main.Biz/Test'' Check =
            (consumer1_service, [], Some (None, Some (Errorf Unauthenticated msg))) \<and>
          streamInterceptor consumer1_service consumer1_ctx ''/main.Biz/Test'' =
            (consumer1_service, Return (Errorf Unauthenticated msg))"
    by (intro interceptors_refuse_unauthenticated disjI2)
qed

text \<open>
  C3. A unary call that passes authorization and the permission check, on a service that
  serves, publishes exactly one message with its consumer and full method name on the log
  bus and exactly one on the stat bus, each delivered once to every subscriber of its bus,
  then calls the wrapped handler once and returns what the handler returns, whatever that is.
\<close>

theorem unaryInterceptor_publishes_once:
  assumes auth: "getConsumerNameFromContext ctx = Inr consumer"
    and perm: "checkBizPermission (aclStorage srv) consumer FullMethod = None"
    and up: "serving srv"
  shows "\<exists>srv'. unaryInterceptor srv ctx req FullMethod handler =
                  (srv', [(ctx, req)], Some (handler ctx req)) \<and>
          incomingLogsCh srv' = incomingLogsCh srv @
            [\<lparr>logMsg.methodName = FullMethod, logMsg.consumerName = consumer\<rparr>] \<and>
          incomingStatCh srv' = incomingStatCh srv @
            [\<lparr>methodName = FullMethod, consumerName = consumer\<rparr>] \<and>
          map logsCh (listeners srv') =
            map (\<lambda>l. logsCh l @ [\<lparr>logMsg.methodName = FullMethod, logMsg.consumerName = consumer\<rparr>])
              (listeners srv) \<and>
          map statCh (statListeners srv') =
            map (\<lambda>sl. statCh sl @ [\<lparr>methodName = FullMethod, consumerName = consumer\<rparr>])
              (statListeners srv) \<and>
          serving srv'"
proof -
  let ?log = "\<lparr>logMsg.methodName = FullMethod, logMsg.consumerName = consumer\<rparr>"
  let ?stat = "\<lparr>methodName = FullMethod, consumerName = consumer\<rparr>"
  let ?s1 = "srv\<lparr>incomingLogsCh := incomingLogsCh srv @ [?log],
                  listeners := map (Logging_select (logsCh_receives ?log)) (listeners srv)\<rparr>"
  let ?s2 = "?s1\<lparr>incomingStatCh := incomingStatCh ?s1 @ [?stat],
                  statListeners := map (Statistics_select (statCh_receives ?stat)) (statListeners ?s1)\<rparr>"
  have 1: "send_incomingLogsCh ?log srv = Some ?s1"
    by (rule send_incomingLogsCh_serving [OF up])
  have up1: "serving ?s1"
    by (rule serving_logs [OF up])
  have 2: "send_incomingStatCh ?stat ?s1 = Some ?s2"
    by (rule send_incomingStatCh_serving [OF up1])
  have up2: "serving ?s2"
    by (rule serving_stats [OF up1])
  have acl: "aclStorage srv = aclStorage srv" ..
  have run: "unaryInterceptor srv ctx req FullMethod handler =
               (?s2, [(ctx, req)], Some (handler ctx req))"
    unfolding unaryInterceptor_def by (simp only: auth perm 1 2 sum.case option.case)
  have "map logsCh (listeners ?s2) = map (\<lambda>l. logsCh l @ [?log]) (listeners srv)"
    by simp
  moreover have "map statCh (statListeners ?s2) = map (\<lambda>sl. statCh sl @ [?stat]) (statListeners srv)"
    by simp
  moreover have "incomingLogsCh ?s2 = incomingLogsCh srv @ [?log]" by simp
  moreover have "incomingStatCh ?s2 = incomingStatCh srv @ [?stat]" by simp
  ultimately show ?thesis using run up2 by blast
qed

theorem unaryInterceptor_publishes_once_witness:
  "\<exists>srv'. unaryInterceptor consumer1_service consumer1_ctx () ''/main.Biz/Check'' Check =
            (srv', [(consumer1_ctx, ())], Some (Some (), None)) \<and>
          incomingLogsCh srv' =
            [\<lparr>logMsg.methodName = ''/main.Biz/Check'', logMsg.consumerName = ''consumer1''\<rparr>] \<and>
          incomingStatCh srv' =
            [\<lparr>methodName = ''/main.Biz/Check'', consumerName = ''consumer1''\<rparr>] \<and>
          map logsCh (listeners srv') =
            [[\<lparr>logMsg.methodName = ''/main.Biz/Check'', logMsg.consumerName = ''consumer1''\<rparr>]]"
proof -
  have ls: "listeners consumer1_service = [new_listener]"
    by (simp add: consumer1_service_def Logging_def addListener_def new_service_def)
  have chans: "incomingLogsCh consumer1_service = []" "incomingStatCh consumer1_service = []"
    by (simp_all add: consumer1_service_def Logging_def addListener_def new_service_def)
  from unaryInterceptor_publishes_once
         [OF consumer1_auth consumer1_Check consumer1_serving, of "()" Check]
  obtain srv' where
    "unaryInterceptor consumer1_service consumer1_ctx () ''/main.Biz/Check'' Check =
       (srv', [(consumer1_ctx, ())], Some (Check consumer1_ctx ()))"
    "incomingLogsCh srv' = incomingLogsCh consumer1_service @
       [\<lparr>logMsg.methodName = ''/main.Biz/Check'', logMsg.consumerName = ''consumer1''\<rparr>]"
    "incomingStatCh srv' = incomingStatCh consumer1_service @
       [\<lparr>methodName = ''/main.Biz/Check'', consumerName = ''consumer1''\<rparr>]"
    "map logsCh (listeners srv') =
       map (\<lambda>l. logsCh l @
              [\<lparr>logMsg.methodName = ''/main.Biz/Check'', logMsg.consumerName = ''consumer1''\<rparr>])
         (listeners consumer1_service)"
    by blast
  then show ?thesis
    by (simp add: ls chans new_listener_def Check_def)
qed

text \<open>
  C4. A stream call that passes authorization and the permission check publishes by its
  method: the call of \<open>/main.Admin/Logging\<close> hands its message to every log subscriber
  and to no stat subscriber, and a call of any other method, \<open>/main.Admin/Statistics\<close>
  included, hands its message to every stat subscriber and to no log subscriber; then the
  handler is entered.
\<close>

theorem streamInterceptor_routes_by_method:
  assumes auth: "getConsumerNameFromContext ctx = Inr consumer"
    and perm: "checkBizPermission (aclStorage srv) consumer FullMethod = None"
    and up: "serving srv"
  shows "\<exists>srv'. streamInterceptor srv ctx FullMethod = (srv', Enters_handler) \<and>
          serving srv' \<and>
          incomingLogsCh srv' = incomingLogsCh srv \<and>
          incomingStatCh srv' = incomingStatCh srv \<and>
          (if FullMethod = ''/main.Admin/Logging''
           then map logsCh (listeners srv') =
                  map (\<lambda>l. logsCh l @
                         [\<lparr>logMsg.methodName = FullMethod, logMsg.consumerName = consumer\<rparr>])
                    (listeners srv) \<and>
                statListeners srv' = statListeners srv
           else map statCh (statListeners srv') =
                  map (\<lambda>sl. statCh sl @ [\<lparr>methodName = FullMethod, consumerName = consumer\<rparr>])
                    (statListeners srv) \<and>
                listeners srv' = listeners srv)"
proof (cases "FullMethod = ''/main.Admin/Logging''")
  case True
  let ?log = "\<lparr>logMsg.methodName = FullMethod, logMsg.consumerName = consumer\<rparr>"
  have "range_send (send_logsCh ?log) (listeners srv) =
          (map (Logging_select (logsCh_receives ?log)) (listeners srv), True)"
    using up by (simp add: serving_def range_send_logsCh)
  then have "streamInterceptor srv ctx FullMethod =
          (srv\<lparr>listeners := map (Logging_select (logsCh_receives ?log)) (listeners srv)\<rparr>,
           Enters_handler)"
    using True perm by (simp add: streamInterceptor_def auth)
  moreover have "serving (srv\<lparr>listeners := map (Logging_select (logsCh_receives ?log)) (listeners srv)\<rparr>)"
    using up by (simp add: serving_def not_returned_logsCh)
  ultimately show ?thesis using True by simp
next
  case False
  let ?stat = "\<lparr>methodName = FullMethod, consumerName = consumer\<rparr>"
  have "range_send (send_statCh ?stat) (statListeners srv) =
          (map (Statistics_select (statCh_receives ?stat)) (statListeners srv), True)"
    using up by (simp add: serving_def range_send_statCh)
  then have "streamInterceptor srv ctx FullMethod =
          (srv\<lparr>statListeners := map (Statistics_select (statCh_receives ?stat)) (statListeners srv)\<rparr>,
           Enters_handler)"
    using False perm by (simp add: streamInterceptor_def auth)
  moreover have "serving (srv\<lparr>statListeners :=
      map (Statistics_select (statCh_receives ?stat)) (statListeners srv)\<rparr>)"
    using up by (simp add: serving_def not_returned_statCh)
  ultimately show ?thesis using False by simp
qed

theorem streamInterceptor_routes_by_method_witness:
  "\<exists>srv'. streamInterceptor consumer1_service consumer1_ctx ''/main.Admin/Statistics'' =
            (srv', Enters_handler) \<and>
          map statCh (statListeners srv') =
            map (\<lambda>sl. statCh sl @
                   [\<lparr>methodName = ''/main.Admin/Statistics'', consumerName = ''consumer1''\<rparr>])
              (statListeners consumer1_service) \<and>
          listeners srv' = listeners consumer1_service"
proof -
  have perm: "checkBizPermission (aclStorage consumer1_service) ''consumer1''
                ''/main.Admin/Statistics'' = None"
    by (simp add: consumer1_service_def Logging_def addListener_def new_service_def
        checkBizPermission_def Split_def)
  show ?thesis
    using streamInterceptor_routes_by_method [OF consumer1_auth perm consumer1_serving]
    by auto
qed

section \<open>Properties of the statistics window\<close>

lemma increment_apply:
  "increment cnt key key' =
     (if key' = key then Some (case cnt key of None \<Rightarrow> 1 | Some n \<Rightarrow> n + 1) else cnt key')"
  by (simp add: increment_def split: option.splits)

lemma add_counts_Nil: "add_counts cnt [] = cnt"
  by (simp add: add_counts_def occurrences_def)

lemma add_counts_Cons: "add_counts cnt (key # keys) = add_counts (increment cnt key) keys"
  by (rule ext) (simp add: add_counts_def occurrences_def increment_apply split: option.splits)

lemma foldl_increment: "foldl increment cnt keys = add_counts cnt keys"
  by (induction keys arbitrary: cnt) (simp_all add: add_counts_Nil add_counts_Cons)

lemma counts_add_counts: "counts keys = add_counts Map.empty keys"
  by (rule ext) (simp add: counts_def add_counts_def)

lemma Statistics_loop_events:
  "\<not> returned sl \<Longrightarrow>
     Statistics_loop (map statCh_receives evs @ rest) sl =
       Statistics_loop rest
         (sl\<lparr>statCh := statCh sl @ evs,
             c := foldl increment (c sl) (map consumerName evs),
             m := foldl increment (m sl) (map methodName evs)\<rparr>)"
proof (induction evs arbitrary: sl)
  case Nil
  then show ?case by simp
next
  case (Cons ev evs)
  let ?sl = "Statistics_select (statCh_receives ev) sl"
  have "\<not> returned ?sl" using Cons.prems by simp
  from Cons.IH [OF this] Cons.prems show ?case by simp
qed

lemma occurrences_le: "occurrences key keys \<le> length keys"
  by (simp add: occurrences_def)

lemma counts_exact:
  assumes "length keys < 2 ^ 64" and "counts keys key = Some n"
  shows "unat n = occurrences key keys" and "0 < occurrences key keys"
proof -
  from assms(2) have pos: "occurrences key keys \<noteq> 0" and n: "n = of_nat (occurrences key keys)"
    by (auto simp: counts_def split: if_splits)
  have "occurrences key keys < 2 ^ 64"
    using occurrences_le [of key keys] assms(1) by simp
  then show "unat n = occurrences key keys"
    unfolding n by (simp add: unat_of_nat)
  from pos show "0 < occurrences key keys" by simp
qed

text \<open>
  C5. From the start of a window (both counters empty), the messages of the window and the
  next tick make \<^verbatim>\<open>Statistics\<close> send one snapshot whose two maps hold the per-key
  counts of the window, and leave both counters empty; each message adds one to the count of
  its consumer and of its method, a new key starting at 1. The counts are \<^verbatim>\<open>uint64\<close>:
  they are the numbers of occurrences as long as the window has fewer than \<open>2 ^ 64\<close>
  messages.
\<close>

theorem Statistics_window:
  assumes "\<not> returned sl" and "c sl = Map.empty" and "m sl = Map.empty"
  shows "sent (Statistics_loop (map statCh_receives evs @ [ticker_C]) sl) =
           sent sl @ [\<lparr>Timestamp = 0, ByMethod = counts (map methodName evs),
                       ByConsumer = counts (map consumerName evs)\<rparr>] \<and>
         c (Statistics_loop (map statCh_receives evs @ [ticker_C]) sl) = Map.empty \<and>
         m (Statistics_loop (map statCh_receives evs @ [ticker_C]) sl) = Map.empty \<and>
         c (Statistics_loop (map statCh_receives evs) sl) = counts (map consumerName evs) \<and>
         m (Statistics_loop (map statCh_receives evs) sl) = counts (map methodName evs) \<and>
         (\<forall>ev key. c (Statistics_select (statCh_receives ev) sl') key =
            (if key = consumerName ev
             then Some (case c sl' key of None \<Rightarrow> 1 | Some n \<Rightarrow> n + 1) else c sl' key) \<and>
           m (Statistics_select (statCh_receives ev) sl') key =
            (if key = methodName ev
             then Some (case m sl' key of None \<Rightarrow> 1 | Some n \<Rightarrow> n + 1) else m sl' key)) \<and>
         (length evs < 2 ^ 64 \<longrightarrow>
            (\<forall>key. occurrences key (map consumerName evs) =
                     (case counts (map consumerName evs) key of None \<Rightarrow> 0 | Some n \<Rightarrow> unat n)) \<and>
            (\<forall>key. occurrences key (map methodName evs) =
                     (case counts (map methodName evs) key of None \<Rightarrow> 0 | Some n \<Rightarrow> unat n)))"
proof -
  have run: "Statistics_loop (map statCh_receives evs @ rest) sl =
       Statistics_loop rest
         (sl\<lparr>statCh := statCh sl @ evs,
             c := counts (map consumerName evs),
             m := counts (map methodName evs)\<rparr>)" for rest
    using Statistics_loop_events [OF assms(1), of evs rest]
    by (simp add: foldl_increment counts_add_counts assms(2,3))
  have a: "sent (Statistics_loop (map statCh_receives evs @ [ticker_C]) sl) =
           sent sl @ [\<lparr>Timestamp = 0, ByMethod = counts (map methodName evs),
                       ByConsumer = counts (map consumerName evs)\<rparr>]"
    and b: "c (Statistics_loop (map statCh_receives evs @ [ticker_C]) sl) = Map.empty"
    and b': "m (Statistics_loop (map statCh_receives evs @ [ticker_C]) sl) = Map.empty"
    unfolding run using assms(1) by simp_all
  have d: "c (Statistics_loop (map statCh_receives evs) sl) = counts (map consumerName evs)"
    and d': "m (Statistics_loop (map statCh_receives evs) sl) = counts (map methodName evs)"
    using run [of "[]"] by simp_all
  have e: "c (Statistics_select (statCh_receives ev) sl') key =
            (if key = consumerName ev
             then Some (case c sl' key of None \<Rightarrow> 1 | Some n \<Rightarrow> n + 1) else c sl' key) \<and>
           m (Statistics_select (statCh_receives ev) sl') key =
            (if key = methodName ev
             then Some (case m sl' key of None \<Rightarrow> 1 | Some n \<Rightarrow> n + 1) else m sl' key)" for ev key
    by (simp add: increment_apply)
  have f: "occurrences key keys = (case counts keys key of None \<Rightarrow> 0 | Some n \<Rightarrow> unat n)"
    if "length keys < 2 ^ 64" for key keys
  proof (cases "counts keys key")
    case None
    then show ?thesis by (simp add: counts_def split: if_splits)
  next
    case (Some n)
    with counts_exact(1) [OF that Some] show ?thesis by simp
  qed
  show ?thesis
    using a b b' d d' e f [of "map consumerName evs"] f [of "map methodName evs"]
    by (simp only: length_map) blast
qed

theorem Statistics_window_witness:
  "sent (Statistics_loop (map statCh_receives example_window @ [ticker_C]) new_statListener) =
     [\<lparr>Timestamp = 0,
       ByMethod = [''/main.Biz/Check'' \<mapsto> 3, ''/main.Biz/Add'' \<mapsto> 2],
       ByConsumer = [''consumer1'' \<mapsto> 5]\<rparr>] \<and>
   c (Statistics_loop (map statCh_receives example_window @ [ticker_C]) new_statListener) = Map.empty \<and>
   m (Statistics_loop (map statCh_receives example_window @ [ticker_C]) new_statListener) = Map.empty \<and>
   sent (Statistics_loop (map statCh_receives example_window @ [ticker_C, ticker_C]) new_statListener) =
     [\<lparr>Timestamp = 0,
       ByMethod = [''/main.Biz/Check'' \<mapsto> 3, ''/main.Biz/Add'' \<mapsto> 2],
       ByConsumer = [''consumer1'' \<mapsto> 5]\<rparr>,
      \<lparr>Timestamp = 0, ByMethod = Map.empty, ByConsumer = Map.empty\<rparr>] \<and>
   length example_window < 2 ^ 64 \<and>
   occurrences ''/main.Biz/Check'' (map methodName example_window) = unat (3 :: 64 word)"
proof -
  let ?run = "Statistics_loop (map statCh_receives example_window @ [ticker_C]) new_statListener"
  have fresh: "\<not> returned new_statListener" "c new_statListener = Map.empty"
    "m new_statListener = Map.empty" "sent new_statListener = []"
    by (simp_all add: new_statListener_def)
  have byMethod: "counts (map methodName example_window) =
      [''/main.Biz/Check'' \<mapsto> 3, ''/main.Biz/Add'' \<mapsto> 2]"
    by (rule ext) (simp add: counts_def occurrences_def example_window_def)
  have byConsumer: "counts (map consumerName example_window) = [''consumer1'' \<mapsto> 5]"
    by (rule ext) (simp add: counts_def occurrences_def example_window_def)
  note w = Statistics_window [OF fresh(1-3), of example_window]
  have snap: "sent ?run =
     [\<lparr>Timestamp = 0,
       ByMethod = [''/main.Biz/Check'' \<mapsto> 3, ''/main.Biz/Add'' \<mapsto> 2],
       ByConsumer = [''consumer1'' \<mapsto> 5]\<rparr>]"
    and c0: "c ?run = Map.empty" and m0: "m ?run = Map.empty"
    using w by (simp_all add: byMethod byConsumer fresh(4))
  have len: "length example_window < 2 ^ 64"
    by (simp add: example_window_def)
  from w len have "occurrences ''/main.Biz/Check'' (map methodName example_window) =
      (case counts (map methodName example_window) ''/main.Biz/Check'' of
         None \<Rightarrow> 0 | Some n \<Rightarrow> unat n)"
    by blast
  then have exact: "occurrences ''/main.Biz/Check'' (map methodName example_window) = unat (3 :: 64 word)"
    by (simp add: byMethod)
  have nr: "\<not> returned ?run"
    by (simp add: example_window_def new_statListener_def)
  have split: "Statistics_loop (map statCh_receives example_window @ [ticker_C, ticker_C]) new_statListener
      = Statistics_loop [ticker_C] ?run"
    by (simp add: example_window_def new_statListener_def)
  from Statistics_window [OF nr c0 m0, of "[]"]
  have "sent (Statistics_loop [ticker_C] ?run) =
          sent ?run @ [\<lparr>Timestamp = 0, ByMethod = counts [], ByConsumer = counts []\<rparr>]"
    by simp
  moreover have "counts [] = Map.empty"
    by (rule ext) (simp add: counts_def occurrences_def)
  ultimately have next_tick: "sent (Statistics_loop (map statCh_receives example_window @ [ticker_C, ticker_C]) new_statListener) =
     [\<lparr>Timestamp = 0,
       ByMethod = [''/main.Biz/Check'' \<mapsto> 3, ''/main.Biz/Add'' \<mapsto> 2],
       ByConsumer = [''consumer1'' \<mapsto> 5]\<rparr>,
      \<lparr>Timestamp = 0, ByMethod = Map.empty, ByConsumer = Map.empty\<rparr>]"
    by (simp add: split snap)
  from snap c0 m0 next_tick len exact show ?thesis by (intro conjI)
qed

section \<open>Properties of the startup\<close>

lemma range_aclParsed_Value:
  "range_aclParsed U kvs acc = Value table \<Longrightarrow>
     (\<forall>(k, v) \<in> set kvs. \<exists>raw val. v = Some raw \<and> U raw = Inr val) \<and>
     (distinct (map fst kvs) \<longrightarrow>
        (\<forall>k val. table k = Some val \<longleftrightarrow>
           (\<exists>raw. (k, Some raw) \<in> set kvs \<and> U raw = Inr val) \<or>
           (k \<notin> fst ` set kvs \<and> acc k = Some val)))"
proof (induction kvs arbitrary: acc)
  case Nil
  then show ?case by simp
next
  case (Cons kv kvs)
  obtain k v where kv: "kv = (k, v)" by (cases kv)
  from Cons.prems kv obtain raw val where v: "v = Some raw" and u: "U raw = Inr val"
    and rest: "range_aclParsed U kvs (acc(k \<mapsto> val)) = Value table"
    by (auto split: option.splits sum.splits)
  note IH = Cons.IH [OF rest]
  show ?case
  proof (intro conjI impI)
    show "\<forall>(k, v) \<in> set (kv # kvs). \<exists>raw val. v = Some raw \<and> U raw = Inr val"
      using IH kv v u by auto
  next
    assume d: "distinct (map fst (kv # kvs))"
    then have dk: "distinct (map fst kvs)" and nk: "k \<notin> fst ` set kvs"
      using kv by auto
    from IH dk have tbl: "\<And>k' val'. table k' = Some val' \<longleftrightarrow>
           (\<exists>raw. (k', Some raw) \<in> set kvs \<and> U raw = Inr val') \<or>
           (k' \<notin> fst ` set kvs \<and> (acc(k \<mapsto> val)) k' = Some val')"
      by blast
    show "\<forall>k' val'. table k' = Some val' \<longleftrightarrow>
           (\<exists>raw. (k', Some raw) \<in> set (kv # kvs) \<and> U raw = Inr val') \<or>
           (k' \<notin> fst ` set (kv # kvs) \<and> acc k' = Some val')"
    proof (intro allI)
      fix k' val'
      show "table k' = Some val' \<longleftrightarrow>
           (\<exists>raw. (k', Some raw) \<in> set (kv # kvs) \<and> U raw = Inr val') \<or>
           (k' \<notin> fst ` set (kv # kvs) \<and> acc k' = Some val')"
      proof (cases "k' = k")
        case True
        have "\<not> (\<exists>raw. (k, Some raw) \<in> set kvs \<and> U raw = Inr val')"
          using nk by force
        then show ?thesis
          using tbl [of k val'] True nk kv v u by auto
      next
        case False
        then show ?thesis
          using tbl [of k' val'] kv by auto
      qed
    qed
  qed
qed

lemma range_aclParsed_total:
  "\<forall>(k, v) \<in> set kvs. \<exists>raw val. v = Some raw \<and> U raw = Inr val \<Longrightarrow>
     \<exists>table. range_aclParsed U kvs acc = Value table"
proof (induction kvs arbitrary: acc)
  case Nil
  then show ?case by simp
next
  case (Cons kv kvs)
  obtain k v where kv: "kv = (k, v)" by (cases kv)
  from Cons.prems kv obtain raw val where v: "v = Some raw" and u: "U raw = Inr val"
    by auto
  from Cons.prems have "\<forall>(k, v) \<in> set kvs. \<exists>raw val. v = Some raw \<and> U raw = Inr val"
    by simp
  from Cons.IH [OF this, of "acc(k \<mapsto> val)"]
  obtain table where "range_aclParsed U kvs (acc(k \<mapsto> val)) = Value table" by blast
  then show ?case
    using kv v u by simp
qed

lemma range_aclParsed_Error:
  "range_aclParsed U kvs acc = Error err \<Longrightarrow>
     \<exists>k raw. (k, Some raw) \<in> set kvs \<and> U raw = Inl err"
proof (induction kvs arbitrary: acc)
  case Nil
  then show ?case by simp
next
  case (Cons kv kvs)
  obtain k v where kv: "kv = (k, v)" by (cases kv)
  show ?case
  proof (cases v)
    case None
    with Cons.prems kv show ?thesis by simp
  next
    case (Some raw)
    show ?thesis
    proof (cases "U raw")
      case (Inl e)
      with Cons.prems kv Some have "e = err" by simp
      with Inl kv Some show ?thesis by auto
    next
      case (Inr val)
      with Cons.prems kv Some have "range_aclParsed U kvs (acc(k \<mapsto> val)) = Error err"
        by simp
      from Cons.IH [OF this] show ?thesis by auto
    qed
  qed
qed

lemma range_aclParsed_Panic:
  "range_aclParsed U kvs acc = Panic \<Longrightarrow> \<exists>k. (k, None) \<in> set kvs"
proof (induction kvs arbitrary: acc)
  case Nil
  then show ?case by simp
next
  case (Cons kv kvs)
  obtain k v where kv: "kv = (k, v)" by (cases kv)
  show ?case
  proof (cases v)
    case None
    with kv show ?thesis by auto
  next
    case (Some raw)
    show ?thesis
    proof (cases "U raw")
      case (Inl e)
      with Cons.prems kv Some show ?thesis by simp
    next
      case (Inr val)
      with Cons.prems kv Some have "range_aclParsed U kvs (acc(k \<mapsto> val)) = Panic"
        by simp
      from Cons.IH [OF this] show ?thesis by auto
    qed
  qed
qed

text \<open>
  C6, as amended. When \<^verbatim>\<open>json.Unmarshal\<close> rejects the specification text, or accepts it
  and rejects the value of one of its entries, \<^verbatim>\<open>StartMyMicroservice\<close> returns the
  decoder's error and has not called \<^verbatim>\<open>net.Listen\<close>; when the decoder accepts the text
  and every value, \<^verbatim>\<open>net.Listen\<close> is called once and the table of the service holds
  exactly the consumers of the decoded object, each with its decoded list of patterns. The
  second part is stated for entries whose values are not \<^verbatim>\<open>nil\<close> pointers, and the
  third for the distinct keys that a Go map has.
\<close>

theorem StartMyMicroservice_acl:
  "(\<forall>err. Unmarshal_map acl = Inl err \<longrightarrow>
      StartMyMicroservice Unmarshal_map Unmarshal_strings Listen addr acl = ([], Error err)) \<and>
   (\<forall>aclParsed.
      Unmarshal_map acl = Inr aclParsed \<and> (\<forall>(k, v) \<in> set aclParsed. v \<noteq> None) \<and>
      \<not> (\<forall>(k, v) \<in> set aclParsed. \<exists>raw val. v = Some raw \<and> Unmarshal_strings raw = Inr val) \<longrightarrow>
      (\<exists>k raw err. (k, Some raw) \<in> set aclParsed \<and> Unmarshal_strings raw = Inl err \<and>
         StartMyMicroservice Unmarshal_map Unmarshal_strings Listen addr acl = ([], Error err))) \<and>
   (\<forall>aclParsed.
      Unmarshal_map acl = Inr aclParsed \<and> distinct (map fst aclParsed) \<and>
      (\<forall>(k, v) \<in> set aclParsed. \<exists>raw val. v = Some raw \<and> Unmarshal_strings raw = Inr val) \<longrightarrow>
      (\<exists>table.
         (\<forall>k val. table k = Some val \<longleftrightarrow>
            (\<exists>raw. (k, Some raw) \<in> set aclParsed \<and> Unmarshal_strings raw = Inr val)) \<and>
         StartMyMicroservice Unmarshal_map Unmarshal_strings Listen addr acl =
           ([addr], if Listen addr then Value (new_service table) else Panic) \<and>
         aclStorage (new_service table) = table))"
proof (intro conjI allI impI)
  fix err
  assume "Unmarshal_map acl = Inl err"
  then show "StartMyMicroservice Unmarshal_map Unmarshal_strings Listen addr acl = ([], Error err)"
    by (simp add: StartMyMicroservice_def parseACL_def)
next
  fix aclParsed
  assume a: "Unmarshal_map acl = Inr aclParsed \<and> (\<forall>(k, v) \<in> set aclParsed. v \<noteq> None) \<and>
      \<not> (\<forall>(k, v) \<in> set aclParsed. \<exists>raw val. v = Some raw \<and> Unmarshal_strings raw = Inr val)"
  then have p: "parseACL Unmarshal_map Unmarshal_strings acl =
                  range_aclParsed Unmarshal_strings aclParsed Map.empty"
    by (simp add: parseACL_def)
  show "\<exists>k raw err. (k, Some raw) \<in> set aclParsed \<and> Unmarshal_strings raw = Inl err \<and>
         StartMyMicroservice Unmarshal_map Unmarshal_strings Listen addr acl = ([], Error err)"
  proof (cases "range_aclParsed Unmarshal_strings aclParsed Map.empty")
    case (Value table)
    from range_aclParsed_Value [OF this] a show ?thesis by blast
  next
    case (Error err)
    from range_aclParsed_Error [OF this] obtain k raw where
      "(k, Some raw) \<in> set aclParsed" "Unmarshal_strings raw = Inl err" by blast
    moreover have "StartMyMicroservice Unmarshal_map Unmarshal_strings Listen addr acl = ([], Error err)"
      by (simp add: StartMyMicroservice_def p Error)
    ultimately show ?thesis by blast
  next
    case Panic
    from range_aclParsed_Panic [OF this] obtain k where "(k, None) \<in> set aclParsed" by blast
    with a show ?thesis by blast
  qed
next
  fix aclParsed
  assume a: "Unmarshal_map acl = Inr aclParsed \<and> distinct (map fst aclParsed) \<and>
      (\<forall>(k, v) \<in> set aclParsed. \<exists>raw val. v = Some raw \<and> Unmarshal_strings raw = Inr val)"
  then have p: "parseACL Unmarshal_map Unmarshal_strings acl =
                  range_aclParsed Unmarshal_strings aclParsed Map.empty"
    by (simp add: parseACL_def)
  from a range_aclParsed_total [of aclParsed Unmarshal_strings Map.empty]
  obtain table where t: "range_aclParsed Unmarshal_strings aclParsed Map.empty = Value table"
    by blast
  from range_aclParsed_Value [OF t] a
  have tbl: "\<forall>k val. table k = Some val \<longleftrightarrow>
            (\<exists>raw. (k, Some raw) \<in> set aclParsed \<and> Unmarshal_strings raw = Inr val)"
    by simp
  have "StartMyMicroservice Unmarshal_map Unmarshal_strings Listen addr acl =
           ([addr], if Listen addr then Value (new_service table) else Panic)"
    by (simp add: StartMyMicroservice_def p t)
  moreover have "aclStorage (new_service table) = table"
    by (simp add: new_service_def)
  ultimately show "\<exists>table.
         (\<forall>k val. table k = Some val \<longleftrightarrow>
            (\<exists>raw. (k, Some raw) \<in> set aclParsed \<and> Unmarshal_strings raw = Inr val)) \<and>
         StartMyMicroservice Unmarshal_map Unmarshal_strings Listen addr acl =
           ([addr], if Listen addr then Value (new_service table) else Panic) \<and>
         aclStorage (new_service table) = table"
    using tbl by blast
qed

lemma example_acl_texts:
  "acl_no_json \<noteq> acl_consumer1" "acl_no_json \<noteq> acl_number" "acl_number \<noteq> acl_consumer1"
  by (simp_all add: acl_no_json_def acl_consumer1_def acl_number_def)

lemma example_raw: "''5'' \<noteq> raw_patterns"
  by (simp add: raw_patterns_def)

theorem StartMyMicroservice_acl_witness:
  "StartMyMicroservice example_Unmarshal_map example_Unmarshal_strings (\<lambda>addr. True)
      ''127.0.0.1:8082'' acl_no_json =
     ([], Error (UnmarshalError ''unexpected end of JSON input'')) \<and>
   StartMyMicroservice example_Unmarshal_map example_Unmarshal_strings (\<lambda>addr. True)
      ''127.0.0.1:8082'' acl_number =
     ([], Error (UnmarshalError ''json: cannot unmarshal number into Go value of type []string'')) \<and>
   (\<exists>table. StartMyMicroservice example_Unmarshal_map example_Unmarshal_strings (\<lambda>addr. True)
        ''127.0.0.1:8082'' acl_consumer1 = ([''127.0.0.1:8082''], Value (new_service table)) \<and>
      table ''consumer1'' = Some [''/main.Biz/Check'', ''/main.Biz/Add''] \<and>
      table ''consumer2'' = None)"
proof -
  let ?start = "StartMyMicroservice example_Unmarshal_map example_Unmarshal_strings (\<lambda>addr. True)
      ''127.0.0.1:8082''"
  note inst = StartMyMicroservice_acl [of example_Unmarshal_map _ example_Unmarshal_strings
      "\<lambda>addr. True" "''127.0.0.1:8082''"]
  note rejected = inst [THEN conjunct1, rule_format]
    and value_rejected = inst [THEN conjunct2, THEN conjunct1, rule_format]
    and accepted = inst [THEN conjunct2, THEN conjunct2, rule_format]
  have 1: "example_Unmarshal_map acl_no_json = Inl (UnmarshalError ''unexpected end of JSON input'')"
    by (simp add: example_Unmarshal_map_def example_acl_texts)
  have a: "?start acl_no_json = ([], Error (UnmarshalError ''unexpected end of JSON input''))"
    by (rule rejected [OF 1])
  have 2: "example_Unmarshal_map acl_number = Inr [(''consumer1'', Some ''5'')]"
    by (simp add: example_Unmarshal_map_def example_acl_texts)
  have five: "example_Unmarshal_strings ''5'' =
      Inl (UnmarshalError ''json: cannot unmarshal number into Go value of type []string'')"
    by (simp add: example_Unmarshal_strings_def example_raw)
  have bad: "(\<forall>(k, v) \<in> set [(''consumer1'', Some ''5'')]. v \<noteq> None) \<and>
             \<not> (\<forall>(k, v) \<in> set [(''consumer1'', Some ''5'')].
                 \<exists>raw val. v = Some raw \<and> example_Unmarshal_strings raw = Inr val)"
    by (simp add: five)
  from value_rejected [OF conjI [OF 2 bad]]
  obtain k raw err where in_set: "(k, Some raw) \<in> set [(''consumer1'', Some ''5'')]"
    and err: "example_Unmarshal_strings raw = Inl err" and st2: "?start acl_number = ([], Error err)"
    by (elim exE conjE)
  from in_set have "raw = ''5''" by simp
  with err five have "err = UnmarshalError ''json: cannot unmarshal number into Go value of type []string''"
    by simp
  with st2 have b: "?start acl_number =
     ([], Error (UnmarshalError ''json: cannot unmarshal number into Go value of type []string''))"
    by (simp only:)
  have 3: "example_Unmarshal_map acl_consumer1 = Inr [(''consumer1'', Some raw_patterns)]"
    by (simp add: example_Unmarshal_map_def)
  have pats: "example_Unmarshal_strings raw_patterns = Inr [''/main.Biz/Check'', ''/main.Biz/Add'']"
    by (simp add: example_Unmarshal_strings_def)
  have good: "distinct (map fst [(''consumer1'', Some raw_patterns)]) \<and>
      (\<forall>(k, v) \<in> set [(''consumer1'', Some raw_patterns)].
         \<exists>raw val. v = Some raw \<and> example_Unmarshal_strings raw = Inr val)"
    by (simp add: pats)
  from accepted [OF conjI [OF 3 good]]
  obtain table where t: "\<forall>k val. table k = Some val \<longleftrightarrow>
        (\<exists>raw. (k, Some raw) \<in> set [(''consumer1'', Some raw_patterns)] \<and>
               example_Unmarshal_strings raw = Inr val)"
    and st: "?start acl_consumer1 = ([''127.0.0.1:8082''], if True then Value (new_service table) else Panic)"
    by (elim exE conjE)
  from t have t1: "table ''consumer1'' = Some [''/main.Biz/Check'', ''/main.Biz/Add'']"
    by (simp add: pats)
  have "table ''consumer2'' = Some val \<Longrightarrow> False" for val
    using t [rule_format, of "''consumer2''" val] by simp
  then have t2: "table ''consumer2'' = None"
    by (cases "table ''consumer2''") auto
  from st have st': "?start acl_consumer1 = ([''127.0.0.1:8082''], Value (new_service table))"
    by simp
  from st' t1 t2 have c: "\<exists>table. ?start acl_consumer1 = ([''127.0.0.1:8082''], Value (new_service table)) \<and>
      table ''consumer1'' = Some [''/main.Biz/Check'', ''/main.Biz/Add''] \<and>
      table ''consumer2'' = None"
    by (intro exI [of _ table] conjI)
  from a b c show ?thesis by (intro conjI)
qed

text \<open>
  C6, as stated, fails: the text \<open>null\<close> is not an object that maps consumers to arrays
  of patterns, and with a decoder that treats it as \<^verbatim>\<open>encoding/json\<close> documents, the
  service starts, on an empty table, and opens its listener.
\<close>

theorem StartMyMicroservice_null_counterexample:
  "StartMyMicroservice null_Unmarshal_map example_Unmarshal_strings (\<lambda>addr. True)
      ''127.0.0.1:8082'' ''null'' =
     ([''127.0.0.1:8082''], Value (new_service Map.empty))"
  by (simp add: StartMyMicroservice_def parseACL_def null_Unmarshal_map_def)

section \<open>Properties of the busses\<close>

lemma serving_new_service: "serving (new_service table)"
  by (simp add: serving_def new_service_def)

lemma serving_Logging: "serving srv \<Longrightarrow> serving (Logging srv)"
  by (simp add: serving_def Logging_def addListener_def new_listener_def)

lemma serving_Statistics: "serving srv \<Longrightarrow> Statistics interval srv = Some srv' \<Longrightarrow> serving srv'"
  by (auto simp: serving_def Statistics_def addStatListener_def new_statListener_def
      split: if_splits)

lemma serving_cancel: "serving srv \<Longrightarrow> serving (cancel i srv)"
  by (auto simp: serving_def cancel_def list_all_length nth_list_update)













section \<open>Properties of the shutdown\<close>

lemma range_send_stat_closeCh:
  "range_send send_stat_closeCh ls = (ls, ls = [])"
  by (cases ls) (simp_all add: send_stat_closeCh_def)

lemma range_send_closeCh:
  "list_all (\<lambda>l. \<not> listener.returned l) ls \<Longrightarrow>
     range_send send_closeCh ls = (map (Logging_select closeCh_receives) ls, True)"
  by (induction ls) (auto simp: send_closeCh_def)

lemma ctx_Done_serving:
  assumes "serving srv"
  shows "ctx_Done srv =
     (srv\<lparr>closeListenersCh := closeListenersCh srv @ [()],
          listeners := map (Logging_select closeCh_receives) (listeners srv),
          logsSender := Returned,
          closeStatListenersCh := closeStatListenersCh srv @ [()],
          statsSender := (if statListeners srv = [] then Returned else Parked)\<rparr>, True)"
  using assms
  by (simp add: serving_def ctx_Done_def send_closeListenersCh_def send_closeStatListenersCh_def
      logsSender_close_def statsSender_close_def range_send_closeCh range_send_stat_closeCh)

text \<open>
  C9 fails on the code. With one call of \<^verbatim>\<open>Logging\<close> and one of \<^verbatim>\<open>Statistics\<close>
  running, the goroutine that waits for the context completes both of its sends and reaches
  \<^verbatim>\<open>srv.Stop()\<close>; \<open>logsSender\<close> has closed the log subscriber, whose handler has
  returned, and has stopped; \<open>statsSender\<close> is parked on its send to the stat subscriber,
  whose handler has received no close signal and has not returned.
\<close>

theorem ctx_Done_parks_statsSender:
  "(case Statistics 1 (Logging (new_service Map.empty)) of
      None \<Rightarrow> False
    | Some srv \<Rightarrow>
        (case ctx_Done srv of
           (srv', stopped) \<Rightarrow>
             stopped \<and>
             logsSender srv' = Returned \<and>
             map listener.returned (listeners srv') = [True] \<and>
             map listener.closeCh (listeners srv') = [[()]] \<and>
             statsSender srv' = Parked \<and>
             map returned (statListeners srv') = [False] \<and>
             map closeCh (statListeners srv') = [[]]))"
  by (simp add: Statistics_def Logging_def addListener_def addStatListener_def new_service_def
      new_listener_def new_statListener_def ctx_Done_def send_closeListenersCh_def
      send_closeStatListenersCh_def logsSender_close_def statsSender_close_def
      send_closeCh_def send_stat_closeCh_def)

section \<open>Properties of the Logging stream\<close>

lemma Logging_loop_sent:
  "listener.sent l =
     map (\<lambda>msg. \<lparr>Event.Timestamp = 0, Consumer = logMsg.consumerName msg,
                 Method = logMsg.methodName msg, Host = ''127.0.0.1:8083''\<rparr>) (logsCh l) \<Longrightarrow>
   listener.sent (Logging_loop xs l) =
     map (\<lambda>msg. \<lparr>Event.Timestamp = 0, Consumer = logMsg.consumerName msg,
                 Method = logMsg.methodName msg, Host = ''127.0.0.1:8083''\<rparr>)
       (logsCh (Logging_loop xs l))"
proof (induction xs arbitrary: l)
  case Nil
  then show ?case by simp
next
  case (Cons x xs)
  show ?case
  proof (cases "listener.returned l")
    case True
    with Cons.prems show ?thesis by simp
  next
    case False
    have "listener.sent (Logging_select x l) =
     map (\<lambda>msg. \<lparr>Event.Timestamp = 0, Consumer = logMsg.consumerName msg,
                 Method = logMsg.methodName msg, Host = ''127.0.0.1:8083''\<rparr>)
       (logsCh (Logging_select x l))"
      using Cons.prems by (cases x) simp_all
    from Cons.IH [OF this] False show ?thesis by simp
  qed
qed

lemma StartMyMicroservice_Value:
  "snd (StartMyMicroservice Unmarshal_map Unmarshal_strings Listen addr acl) = Value srv \<Longrightarrow>
     \<exists>table. srv = new_service table"
  by (auto simp: StartMyMicroservice_def split: result.splits if_splits)

lemma log_bus_sent:
  "serving srv \<Longrightarrow>
   list_all (\<lambda>l. listener.sent l =
       map (\<lambda>msg. \<lparr>Event.Timestamp = 0, Consumer = logMsg.consumerName msg,
                   Method = logMsg.methodName msg, Host = ''127.0.0.1:8083''\<rparr>) (logsCh l))
     (listeners srv) \<Longrightarrow>
   \<exists>srv'. log_bus ops srv = Some srv' \<and>
     list_all (\<lambda>l. listener.sent l =
       map (\<lambda>msg. \<lparr>Event.Timestamp = 0, Consumer = logMsg.consumerName msg,
                   Method = logMsg.methodName msg, Host = ''127.0.0.1:8083''\<rparr>) (logsCh l))
     (listeners srv')"
proof (induction ops arbitrary: srv)
  case Nil
  then show ?case by simp
next
  case (Cons op ops)
  show ?case
  proof (cases op)
    case Subscribe
    have "list_all (\<lambda>l. listener.sent l =
       map (\<lambda>msg. \<lparr>Event.Timestamp = 0, Consumer = logMsg.consumerName msg,
                   Method = logMsg.methodName msg, Host = ''127.0.0.1:8083''\<rparr>) (logsCh l))
     (listeners (Logging srv))"
      using Cons.prems(2) by (simp add: Logging_def addListener_def new_listener_def)
    from Cons.IH [OF serving_Logging [OF Cons.prems(1)] this] Subscribe
    show ?thesis by simp
  next
    case (Publish log)
    let ?s1 = "srv\<lparr>incomingLogsCh := incomingLogsCh srv @ [log],
                    listeners := map (Logging_select (logsCh_receives log)) (listeners srv)\<rparr>"
    have send: "send_incomingLogsCh log srv = Some ?s1"
      by (rule send_incomingLogsCh_serving [OF Cons.prems(1)])
    have "list_all (\<lambda>l. listener.sent l =
       map (\<lambda>msg. \<lparr>Event.Timestamp = 0, Consumer = logMsg.consumerName msg,
                   Method = logMsg.methodName msg, Host = ''127.0.0.1:8083''\<rparr>) (logsCh l))
     (listeners ?s1)"
      using Cons.prems(2) by (simp add: list_all_iff)
    from Cons.IH [OF serving_logs [OF Cons.prems(1)] this] Publish send
    show ?thesis by simp
  next
    case (Cancel i)
    have "list_all (\<lambda>l. listener.sent l =
       map (\<lambda>msg. \<lparr>Event.Timestamp = 0, Consumer = logMsg.consumerName msg,
                   Method = logMsg.methodName msg, Host = ''127.0.0.1:8083''\<rparr>) (logsCh l))
     (listeners (cancel i srv))"
      using Cons.prems(2) by (auto simp: cancel_def list_all_length nth_list_update)
    from Cons.IH [OF serving_cancel [OF Cons.prems(1)] this] Cancel
    show ?thesis by simp
  qed
qed

text \<open>
  C10. Whatever \<^verbatim>\<open>Logging\<close> receives, the events it sends are, one for one and in
  order, the messages it has received, each with the host \<open>127.0.0.1:8083\<close> and the
  timestamp 0; and in every run of the log bus of a service started on any address, with any
  specification, every event sent by every subscriber has that host and that timestamp.
\<close>

theorem Logging_events_fixed_host:
  "listener.sent (Logging_loop xs new_listener) =
     map (\<lambda>msg. \<lparr>Event.Timestamp = 0, Consumer = logMsg.consumerName msg,
                 Method = logMsg.methodName msg, Host = ''127.0.0.1:8083''\<rparr>)
       (logsCh (Logging_loop xs new_listener)) \<and>
   list_all (\<lambda>e. Host e = ''127.0.0.1:8083'' \<and> Event.Timestamp e = 0)
     (listener.sent (Logging_loop xs new_listener)) \<and>
   (\<forall>srv. snd (StartMyMicroservice Unmarshal_map Unmarshal_strings Listen addr acl) = Value srv \<longrightarrow>
      (\<exists>srv'. log_bus ops srv = Some srv' \<and>
         list_all (\<lambda>l. list_all (\<lambda>e. Host e = ''127.0.0.1:8083'' \<and> Event.Timestamp e = 0)
                     (listener.sent l))
           (listeners srv')))"
proof -
  have eq: "listener.sent (Logging_loop xs new_listener) =
     map (\<lambda>msg. \<lparr>Event.Timestamp = 0, Consumer = logMsg.consumerName msg,
                 Method = logMsg.methodName msg, Host = ''127.0.0.1:8083''\<rparr>)
       (logsCh (Logging_loop xs new_listener))"
    by (rule Logging_loop_sent) (simp add: new_listener_def)
  have all: "list_all (\<lambda>e. Host e = ''127.0.0.1:8083'' \<and> Event.Timestamp e = 0)
     (listener.sent (Logging_loop xs new_listener))"
    unfolding eq by (simp add: list_all_iff)
  have sys: "\<exists>srv'. log_bus ops srv = Some srv' \<and>
         list_all (\<lambda>l. list_all (\<lambda>e. Host e = ''127.0.0.1:8083'' \<and> Event.Timestamp e = 0)
                     (listener.sent l))
           (listeners srv')"
    if "snd (StartMyMicroservice Unmarshal_map Unmarshal_strings Listen addr acl) = Value srv" for srv
  proof -
    from StartMyMicroservice_Value [OF that] obtain table where srv: "srv = new_service table" ..
    have "list_all (\<lambda>l. listener.sent l =
       map (\<lambda>msg. \<lparr>Event.Timestamp = 0, Consumer = logMsg.consumerName msg,
                   Method = logMsg.methodName msg, Host = ''127.0.0.1:8083''\<rparr>) (logsCh l))
     (listeners srv)"
      by (simp add: srv new_service_def)
    from log_bus_sent [OF _ this, of ops] serving_new_service [of table] srv
    obtain srv' where run: "log_bus ops srv = Some srv'"
      and inv: "list_all (\<lambda>l. listener.sent l =
       map (\<lambda>msg. \<lparr>Event.Timestamp = 0, Consumer = logMsg.consumerName msg,
                   Method = logMsg.methodName msg, Host = ''127.0.0.1:8083''\<rparr>) (logsCh l))
     (listeners srv')"
      by blast
    have "list_all (\<lambda>l. list_all (\<lambda>e. Host e = ''127.0.0.1:8083'' \<and> Event.Timestamp e = 0)
                     (listener.sent l)) (listeners srv')"
      using inv by (auto simp: list_all_iff)
    with run show ?thesis by blast
  qed
  from eq all sys show ?thesis by blast
qed

theorem Logging_events_fixed_host_witness:
  "\<exists>srv srv'.
     snd (StartMyMicroservice example_Unmarshal_map example_Unmarshal_strings (\<lambda>addr. True)
            ''127.0.0.1:8082'' acl_consumer1) = Value srv \<and>
     log_bus [Subscribe, Publish Check_logMsg] srv = Some srv' \<and>
     map listener.sent (listeners srv') =
       [[\<lparr>Event.Timestamp = 0, Consumer = ''consumer1'', Method = ''/main.Biz/Check'',
          Host = ''127.0.0.1:8083''\<rparr>]] \<and>
     list_all (\<lambda>l. list_all (\<lambda>e. Host e = ''127.0.0.1:8083'' \<and> Event.Timestamp e = 0)
                 (listener.sent l))
       (listeners srv')"
proof -
  let ?table = "[''consumer1'' \<mapsto> [''/main.Biz/Check'', ''/main.Biz/Add'']]"
  let ?srv = "new_service ?table"
  have start: "snd (StartMyMicroservice example_Unmarshal_map example_Unmarshal_strings
      (\<lambda>addr. True) ''127.0.0.1:8082'' acl_consumer1) = Value ?srv"
    by (simp add: StartMyMicroservice_def parseACL_def example_Unmarshal_map_def
        example_Unmarshal_strings_def)
  from Logging_events_fixed_host [of "[]" example_Unmarshal_map example_Unmarshal_strings
      "\<lambda>addr. True" "''127.0.0.1:8082''" acl_consumer1 "[Subscribe, Publish Check_logMsg]"]
  have "\<forall>srv. snd (StartMyMicroservice example_Unmarshal_map example_Unmarshal_strings
      (\<lambda>addr. True) ''127.0.0.1:8082'' acl_consumer1) = Value srv \<longrightarrow>
      (\<exists>srv'. log_bus [Subscribe, Publish Check_logMsg] srv = Some srv' \<and>
         list_all (\<lambda>l. list_all (\<lambda>e. Host e = ''127.0.0.1:8083'' \<and> Event.Timestamp e = 0)
                     (listener.sent l))
           (listeners srv'))"
    by (elim conjE)
  from this [rule_format, OF start]
  obtain srv' where run: "log_bus [Subscribe, Publish Check_logMsg] ?srv = Some srv'"
    and hosts: "list_all (\<lambda>l. list_all (\<lambda>e. Host e = ''127.0.0.1:8083'' \<and> Event.Timestamp e = 0)
                     (listener.sent l)) (listeners srv')"
    by (elim exE conjE)
  have "log_bus [Subscribe, Publish Check_logMsg] ?srv =
          Some (?srv\<lparr>incomingLogsCh := [Check_logMsg],
                 listeners := [Logging_select (logsCh_receives Check_logMsg) new_listener]\<rparr>)"
    by (simp add: Logging_def addListener_def new_service_def send_incomingLogsCh_def
        logsSender_log_def send_logsCh_def new_listener_def)
  with run have evs: "map listener.sent (listeners srv') =
       [[\<lparr>Event.Timestamp = 0, Consumer = ''consumer1'', Method = ''/main.Biz/Check'',
          Host = ''127.0.0.1:8083''\<rparr>]]"
    by (auto simp: new_listener_def Check_logMsg_def)
  from start run evs hosts show ?thesis
    by (intro exI [of _ ?srv] exI [of _ srv'] conjI)
qed

end
